theory Spec2Isabelle
  imports Complex_Main "HOL-Library.Multiset"
begin

section \<open>NumPy values and primitive operations\<close>

text \<open>
  The scripts compute on NumPy \<open>float64\<close> arrays. Finite values are modelled as
  \<^typ>\<open>real\<close> numbers, and an arithmetic expression of a script as the expression
  over the reals that it rounds. Two computations whose rounding can decide a branch
  are parameters of the model, standing for the values the interpreter computes: the
  numerical kernels of the dipole fit and the angular separation of the significance
  map; their expressions over the reals are given beside them. The special values a
  script creates or tests for itself (\<open>np.nan\<close>, \<open>np.inf\<close>, the result of a
  division by zero, the result of \<open>np.nanmean\<close>) are the further constructors of
  \<open>npfloat\<close>. Exceptions raised by Python or NumPy are values of \<open>py_error\<close>.
\<close>

datatype npfloat = Num real | PInf | NInf | NaN

datatype py_error = ZeroDivisionError | TypeError | ValueError | IndexError

type_synonym vec3 = "real \<times> real \<times> real"

definition deg2rad :: "real \<Rightarrow> real" where
  "deg2rad x = x * (pi / 180)"




text \<open>
  Division of two finite floats as NumPy does it: a zero divisor gives \<open>nan\<close> or an
  infinity (with a warning), never an exception.
\<close>

definition np_div :: "real \<Rightarrow> real \<Rightarrow> npfloat" where
  "np_div x y =
     (if y \<noteq> 0 then Num (x / y)
      else if x = 0 then NaN
      else if 0 < x then PInf else NInf)"

text \<open>Adding a finite float to a float that may be special.\<close>

fun np_add :: "real \<Rightarrow> npfloat \<Rightarrow> npfloat" where
  "np_add x (Num v) = Num (x + v)"
| "np_add x PInf = PInf"
| "np_add x NInf = NInf"
| "np_add x NaN = NaN"

text \<open>
  Elementwise product of two one-dimensional arrays with NumPy's broadcasting: equal
  lengths, or one operand of length one; any other pair of shapes raises \<open>ValueError\<close>.
\<close>

definition np_mul :: "real list \<Rightarrow> real list \<Rightarrow> py_error + real list" where
  "np_mul xs ys =
     (if length xs = length ys then Inr (map2 (*) xs ys)
      else if length xs = 1 then Inr (map ((*) (hd xs)) ys)
      else if length ys = 1 then Inr (map (\<lambda>x. x * hd ys) xs)
      else Inl ValueError)"

text \<open>
  \<open>np.vstack([x, y, z]).T\<close>: the three rows must have one length; the result has one
  row \<open>(x\<^sub>i, y\<^sub>i, z\<^sub>i)\<close> per index.
\<close>

definition vstack3_T :: "real list \<Rightarrow> real list \<Rightarrow> real list \<Rightarrow> py_error + vec3 list" where
  "vstack3_T x y z =
     (if length x = length y \<and> length y = length z then Inr (zip x (zip y z))
      else Inl ValueError)"

definition dot3 :: "vec3 \<Rightarrow> vec3 \<Rightarrow> real" where
  "dot3 u v = (case u of (ux, uy, uz) \<Rightarrow> case v of (vx, vy, vz) \<Rightarrow> ux * vx + uy * vy + uz * vz)"

text \<open>\<open>nvecs @ d\<close> for an \<open>N \<times> 3\<close> array and a 3-vector.\<close>

definition matvec :: "vec3 list \<Rightarrow> vec3 \<Rightarrow> real list" where
  "matvec nvecs d = map (\<lambda>n. dot3 n d) nvecs"

definition vnorm :: "vec3 \<Rightarrow> real" where
  "vnorm v = (case v of (x, y, z) \<Rightarrow> sqrt (x * x + y * y + z * z))"

text \<open>
  \<open>a[mask]\<close> with a boolean mask: NumPy raises \<open>IndexError\<close> unless the mask is as
  long as the array; the selected elements keep their order.
\<close>

definition bool_index :: "'a list \<Rightarrow> bool list \<Rightarrow> py_error + 'a list" where
  "bool_index xs msk =
     (if length msk \<noteq> length xs then Inl IndexError
      else Inr (map fst (filter snd (zip xs msk))))"

section \<open>Coordinate transforms\<close>

text \<open>\<open>sph_to_cart\<close> of \<open>frb_dipole_test.py\<close>.\<close>

definition sph_to_cart :: "real list \<Rightarrow> real list \<Rightarrow> py_error + vec3 list" where
  "sph_to_cart ra_deg dec_deg =
     (let ra = map deg2rad ra_deg;
          dec = map deg2rad dec_deg
      in case np_mul (map cos dec) (map cos ra) of
           Inl e \<Rightarrow> Inl e
         | Inr x \<Rightarrow>
             (case np_mul (map cos dec) (map sin ra) of
                Inl e \<Rightarrow> Inl e
              | Inr y \<Rightarrow> vstack3_T x y (map sin dec)))"

text \<open>\<open>unit_vectors\<close> of \<open>frb_cpt_dm_histogram.py\<close>: the same computation.\<close>

definition unit_vectors :: "real list \<Rightarrow> real list \<Rightarrow> py_error + vec3 list" where
  "unit_vectors ra0 dec0 =
     (let ra = map deg2rad ra0;
          dec = map deg2rad dec0
      in case np_mul (map cos dec) (map cos ra) of
           Inl e \<Rightarrow> Inl e
         | Inr x \<Rightarrow>
             (case np_mul (map cos dec) (map sin ra) of
                Inl e \<Rightarrow> Inl e
              | Inr y \<Rightarrow> vstack3_T x y (map sin dec)))"

text \<open>\<open>hemispheres\<close> of \<open>frb_cpt_dm_histogram.py\<close>.\<close>

definition hemispheres :: "vec3 list \<Rightarrow> 'a list \<Rightarrow> vec3 \<Rightarrow> py_error + ('a list \<times> 'a list)" where
  "hemispheres nvecs dm n0 =
     (let sgns = map sgn (matvec nvecs n0)
      in case bool_index dm (map (\<lambda>s. s \<ge> 0) sgns) of
           Inl e \<Rightarrow> Inl e
         | Inr pos \<Rightarrow>
             (case bool_index dm (map (\<lambda>s. s < 0) sgns) of
                Inl e \<Rightarrow> Inl e
              | Inr neg \<Rightarrow> Inr (pos, neg)))"

section \<open>Autocorrelation profile (\<open>frb_qso_autocorr_sigma.py\<close>)\<close>

text \<open>\<open>np.hypot\<close>.\<close>

definition hypot :: "real \<Rightarrow> real \<Rightarrow> real" where
  "hypot u v = sqrt (u * u + v * v)"

text \<open>
  The array \<open>r = np.hypot(y - h / 2, x - w / 2)\<close> over the indices of an \<open>h \<times> w\<close>
  grid, read at row \<open>y\<close> and column \<open>x\<close>.
\<close>

definition pixel_radius :: "nat \<Rightarrow> nat \<Rightarrow> nat \<Rightarrow> nat \<Rightarrow> real" where
  "pixel_radius h w y x = hypot (real y - real h / 2) (real x - real w / 2)"

text \<open>\<open>bins = np.arange(0, int(np.min([h, w]) / 2))\<close>.\<close>

definition radial_bins :: "nat \<Rightarrow> nat \<Rightarrow> nat list" where
  "radial_bins h w = [0..<nat \<lfloor>real (min h w) / 2\<rfloor>]"

text \<open>
  The boolean array \<open>(r >= lo) & (r < hi)\<close>, \<open>np.any\<close> of a boolean array over the
  grid, and \<open>AC[mask]\<close>: the selected cells in row-major order.
\<close>

definition ring_mask :: "nat \<Rightarrow> nat \<Rightarrow> nat \<Rightarrow> nat \<Rightarrow> nat \<Rightarrow> nat \<Rightarrow> bool" where
  "ring_mask h w lo hi y x \<longleftrightarrow> pixel_radius h w y x \<ge> real lo \<and> pixel_radius h w y x < real hi"

definition np_any :: "nat \<Rightarrow> nat \<Rightarrow> (nat \<Rightarrow> nat \<Rightarrow> bool) \<Rightarrow> bool" where
  "np_any h w msk \<longleftrightarrow> list_ex (\<lambda>y. list_ex (msk y) [0..<w]) [0..<h]"

definition masked_cells :: "nat \<Rightarrow> nat \<Rightarrow> 'a list list \<Rightarrow> (nat \<Rightarrow> nat \<Rightarrow> bool) \<Rightarrow> 'a list" where
  "masked_cells h w AC msk =
     concat (map (\<lambda>y. map (\<lambda>x. AC ! y ! x) (filter (msk y) [0..<w])) [0..<h])"

text \<open>
  \<open>np.nanmean\<close> of a one-dimensional array: the mean of the entries that are not
  \<open>nan\<close>; \<open>nan\<close> when there is none, and the IEEE sum when infinities are present.
\<close>

fun finite_part :: "npfloat \<Rightarrow> real" where
  "finite_part (Num v) = v"
| "finite_part _ = 0"

definition nanmean :: "npfloat list \<Rightarrow> npfloat" where
  "nanmean cells =
     (let vs = filter (\<lambda>c. c \<noteq> NaN) cells
      in if vs = [] then NaN
         else if PInf \<in> set vs \<and> NInf \<in> set vs then NaN
         else if PInf \<in> set vs then PInf
         else if NInf \<in> set vs then NInf
         else Num (sum_list (map finite_part vs) / real (length vs)))"

text \<open>
  The loop \<open>for i in range(len(bins) - 1)\<close> that fills \<open>radial\<close>, over the indices
  still to visit.
\<close>

fun radial_loop ::
  "nat \<Rightarrow> nat \<Rightarrow> npfloat list list \<Rightarrow> nat list \<Rightarrow> nat list \<Rightarrow> npfloat list \<Rightarrow> npfloat list" where
  "radial_loop h w AC bins [] radial = radial"
| "radial_loop h w AC bins (i # rest) radial =
     (let msk = ring_mask h w (bins ! i) (bins ! (i + 1))
      in radial_loop h w AC bins rest
           (if np_any h w msk then radial[i := nanmean (masked_cells h w AC msk)] else radial))"

text \<open>
  The radial profile of an \<open>h \<times> w\<close> autocorrelation grid \<open>AC\<close>:
  \<open>radial = np.zeros_like(bins, dtype=np.float64)\<close>, then the loop.
\<close>

definition radial_profile :: "nat \<Rightarrow> nat \<Rightarrow> npfloat list list \<Rightarrow> npfloat list" where
  "radial_profile h w AC =
     (let bins = radial_bins h w;
          radial = replicate (length bins) (Num 0)
      in radial_loop h w AC bins [0..<length bins - 1] radial)"

text \<open>\<open>np.where(corr <= target)[0]\<close>: the indices, in order, where the test holds.\<close>

definition where_le :: "real list \<Rightarrow> real \<Rightarrow> nat list" where
  "where_le corr target = filter (\<lambda>i. corr ! i \<le> target) [0..<length corr]"

text \<open>
  \<open>crossing_angle\<close>. Reading \<open>deg\<close> at an index past its end raises \<open>IndexError\<close>;
  the division is NumPy's.
\<close>

definition crossing_angle :: "real list \<Rightarrow> real list \<Rightarrow> real \<Rightarrow> py_error + npfloat" where
  "crossing_angle deg corr target =
     (let idx = where_le corr target
      in if length idx = 0 then Inr NaN
         else
           let i = idx ! 0
           in if i > 0 then
                (if i < length deg then
                   let x0 = deg ! (i - 1); x1 = deg ! i;
                       y0 = corr ! (i - 1); y1 = corr ! i
                   in Inr (np_add x0 (np_div ((target - y0) * (x1 - x0)) (y1 - y0)))
                 else Inl IndexError)
              else (if i < length deg then Inr (Num (deg ! i)) else Inl IndexError))"

text \<open>
  A \<open>4 \<times> 4\<close> autocorrelation grid, normalised to its peak at the centre cell
  \<open>[2][2]\<close>, with the value \<open>1/2\<close> everywhere else.
\<close>

definition AC_4x4 :: "npfloat list list" where
  "AC_4x4 = [[Num (1/2), Num (1/2), Num (1/2), Num (1/2)],
             [Num (1/2), Num (1/2), Num (1/2), Num (1/2)],
             [Num (1/2), Num (1/2), Num 1, Num (1/2)],
             [Num (1/2), Num (1/2), Num (1/2), Num (1/2)]]"

section \<open>Directional significance map (\<open>frb_sigma_axis_map.py\<close>)\<close>



















section \<open>Dipole fit and permutation test (\<open>frb_dipole_test.py\<close>)\<close>























section \<open>Verified properties\<close>

subsection \<open>Unit vectors from right ascension and declination\<close>

lemma vnorm_unit: "vnorm (cos d * cos r, cos d * sin r, sin d) = 1"
proof -
  have r: "cos r * cos r + sin r * sin r = 1" by (rule sin_cos_squared_add3)
  have d: "cos d * cos d + sin d * sin d = 1" by (rule sin_cos_squared_add3)
  have "(cos d * cos r) * (cos d * cos r) + (cos d * sin r) * (cos d * sin r) + sin d * sin d
        = cos d * cos d * (cos r * cos r + sin r * sin r) + sin d * sin d"
    by algebra
  also have "\<dots> = 1" by (simp only: r d mult_1_right)
  finally have "(cos d * cos r) * (cos d * cos r) + (cos d * sin r) * (cos d * sin r)
                + sin d * sin d = 1" .
  then show ?thesis by (simp only: vnorm_def prod.case real_sqrt_one)
qed

lemma sph_to_cart_eq:
  assumes "length ra = length dec"
  shows "sph_to_cart ra dec =
           Inr (map2 (\<lambda>r d. (cos (deg2rad d) * cos (deg2rad r),
                              cos (deg2rad d) * sin (deg2rad r),
                              sin (deg2rad d))) ra dec)"
  using assms
proof (induction ra dec rule: list_induct2)
  case Nil
  show ?case by (simp add: sph_to_cart_def np_mul_def vstack3_T_def)
next
  case (Cons r rs d ds)
  then show ?case
    by (simp add: sph_to_cart_def np_mul_def vstack3_T_def Let_def)
qed

lemma unit_vectors_eq_sph_to_cart: "unit_vectors ra dec = sph_to_cart ra dec"
  by (simp add: unit_vectors_def sph_to_cart_def)

text \<open>
  Claim C9. Applied to arrays of one length \<open>N\<close>, \<open>sph_to_cart\<close> and
  \<open>unit_vectors\<close> both return \<open>N\<close> vectors; the \<open>i\<close>-th is
  \<open>(cos dec cos ra, cos dec sin ra, sin dec)\<close> of the \<open>i\<close>-th angles converted to
  radians, and its Euclidean norm is within \<open>10\<^sup>-\<^sup>9\<close> of one (in exact arithmetic it
  is one). This holds for all angles, in particular for \<open>ra\<close> in \<open>[0, 360)\<close> and
  \<open>dec\<close> in \<open>[-90, 90]\<close>.
\<close>

theorem to_unit_vector_formula_and_norm:
  assumes "length ra = length dec"
  shows "\<exists>vs. sph_to_cart ra dec = Inr vs \<and> unit_vectors ra dec = Inr vs
           \<and> length vs = length ra
           \<and> (\<forall>i < length ra.
                 vs ! i = (cos (dec ! i * pi / 180) * cos (ra ! i * pi / 180),
                           cos (dec ! i * pi / 180) * sin (ra ! i * pi / 180),
                           sin (dec ! i * pi / 180))
                 \<and> \<bar>vnorm (vs ! i) - 1\<bar> \<le> 1 / 10 ^ 9)"
proof -
  let ?f = "\<lambda>r d. (cos (deg2rad d) * cos (deg2rad r),
                    cos (deg2rad d) * sin (deg2rad r),
                    sin (deg2rad d))"
  let ?vs = "map2 ?f ra dec"
  have a: "sph_to_cart ra dec = Inr ?vs" by (rule sph_to_cart_eq [OF assms])
  have b: "unit_vectors ra dec = Inr ?vs"
    by (simp only: unit_vectors_eq_sph_to_cart a)
  have c: "length ?vs = length ra" using assms by simp
  have d: "?vs ! i = (cos (dec ! i * pi / 180) * cos (ra ! i * pi / 180),
                      cos (dec ! i * pi / 180) * sin (ra ! i * pi / 180),
                      sin (dec ! i * pi / 180))
           \<and> \<bar>vnorm (?vs ! i) - 1\<bar> \<le> 1 / 10 ^ 9" if "i < length ra" for i
  proof -
    have e: "?vs ! i = ?f (ra ! i) (dec ! i)" using that assms by simp
    show ?thesis
      unfolding e by (simp add: vnorm_unit) (simp add: deg2rad_def)
  qed
  from a b c d show ?thesis by blast
qed

text \<open>The points \<open>(ra, dec) = (0, 0)\<close> and \<open>(90, 0)\<close> are the \<open>x\<close> and \<open>y\<close> axes.\<close>

theorem to_unit_vector_witness:
  "length [0, 90 :: real] = length [0, 0 :: real]
   \<and> sph_to_cart [0, 90] [0, 0] = Inr [(1, 0, 0), (0, 1, 0)]
   \<and> unit_vectors [0, 90] [0, 0] = Inr [(1, 0, 0), (0, 1, 0)]
   \<and> vnorm (1, 0, 0) = 1 \<and> vnorm (0, 1, 0) = 1"
proof -
  obtain vs where v: "sph_to_cart [0, 90] [0, 0] = Inr vs" "unit_vectors [0, 90] [0, 0] = Inr vs"
      "length vs = length [0, 90 :: real]"
      "\<forall>i < length [0, 90 :: real].
          vs ! i = (cos ([0, 0] ! i * pi / 180) * cos ([0, 90] ! i * pi / 180),
                    cos ([0, 0] ! i * pi / 180) * sin ([0, 90] ! i * pi / 180),
                    sin ([0, 0] ! i * pi / 180))
          \<and> \<bar>vnorm (vs ! i) - 1\<bar> \<le> 1 / 10 ^ 9"
    using to_unit_vector_formula_and_norm [of "[0, 90]" "[0, 0]"] by auto
  have h: "90 * pi / 180 = pi / 2" by simp
  from v(4) have "vs ! 0 = (1, 0, 0)" by simp
  moreover from v(4) have "vs ! 1 = (0, 1, 0)" by (simp add: h)
  moreover from v(3) have "vs = [vs ! 0, vs ! 1]"
    by (cases vs; cases "tl vs"; cases "tl (tl vs)") auto
  ultimately have "vs = [(1, 0, 0), (0, 1, 0)]" by simp
  with v(1,2) show ?thesis by (simp add: vnorm_def)
qed

subsection \<open>The hemisphere split is a partition\<close>

lemma zip_as_map_upt:
  "length xs = length bs \<Longrightarrow> zip xs bs = map (\<lambda>i. (xs ! i, bs ! i)) [0..<length xs]"
  by (rule nth_equalityI) auto

lemma bool_index_as_indices:
  assumes "length bs = length xs"
  shows "bool_index xs bs = Inr (map ((!) xs) (filter ((!) bs) [0..<length xs]))"
proof -
  have "map fst (filter snd (zip xs bs)) = map ((!) xs) (filter ((!) bs) [0..<length xs])"
    using assms by (simp add: zip_as_map_upt filter_map comp_def)
  then show ?thesis using assms by (simp add: bool_index_def)
qed

lemma bool_index_compl:
  assumes "length bs = length xs"
      and "bool_index xs bs = Inr ps" and "bool_index xs (map Not bs) = Inr ns"
  shows "mset ps + mset ns = mset xs" and "length ps + length ns = length xs"
proof -
  have p: "ps = map fst (filter snd (zip xs bs))"
    using assms by (simp add: bool_index_def)
  have "zip xs (map Not bs) = map (\<lambda>(x, b). (x, \<not> b)) (zip xs bs)"
    by (simp add: zip_map2 case_prod_unfold)
  then have n: "ns = map fst (filter (\<lambda>p. \<not> snd p) (zip xs bs))"
    using assms by (simp add: bool_index_def filter_map comp_def case_prod_unfold)
  have "mset (map fst (filter P z)) + mset (map fst (filter (\<lambda>p. \<not> P p) z)) = mset (map fst z)"
    for P and z :: "('a \<times> bool) list"
    by (induction z) auto
  then have "mset ps + mset ns = mset (map fst (zip xs bs))"
    by (simp only: p n)
  then show "mset ps + mset ns = mset xs" using assms by simp
  then have "size (mset ps + mset ns) = size (mset xs)" by simp
  then show "length ps + length ns = length xs" by simp
qed

text \<open>
  Claim C10. For co-indexed arrays \<open>nvecs\<close> and \<open>dm\<close> and any axis \<open>n0\<close>,
  \<open>hemispheres\<close> returns two arrays: the samples whose dot product with \<open>n0\<close> is
  non-negative (the boundary \<open>0\<close> included), and those whose dot product is negative,
  each in the order of \<open>dm\<close>. Every sample is in exactly one of them: together they
  hold the elements of \<open>dm\<close> with their multiplicities, and their lengths add up to
  \<open>len(dm)\<close>.
\<close>

theorem hemispheres_partition:
  assumes "length nvecs = length dm"
  shows "\<exists>pos neg. hemispheres nvecs dm n0 = Inr (pos, neg)
           \<and> pos = map ((!) dm) (filter (\<lambda>i. 0 \<le> dot3 (nvecs ! i) n0) [0..<length dm])
           \<and> neg = map ((!) dm) (filter (\<lambda>i. dot3 (nvecs ! i) n0 < 0) [0..<length dm])
           \<and> length pos + length neg = length dm
           \<and> mset pos + mset neg = mset dm"
proof -
  let ?sg = "map sgn (matvec nvecs n0)"
  let ?bp = "map (\<lambda>s. s \<ge> 0) ?sg"
  let ?bn = "map (\<lambda>s. s < 0) ?sg"
  let ?pos = "map ((!) dm) (filter ((!) ?bp) [0..<length dm])"
  let ?neg = "map ((!) dm) (filter ((!) ?bn) [0..<length dm])"
  have lp: "length ?bp = length dm" and ln: "length ?bn = length dm"
    using assms by (simp_all add: matvec_def)
  have bp: "bool_index dm ?bp = Inr ?pos" by (rule bool_index_as_indices [OF lp])
  have bn: "bool_index dm ?bn = Inr ?neg" by (rule bool_index_as_indices [OF ln])
  have h: "hemispheres nvecs dm n0 = Inr (?pos, ?neg)"
    unfolding hemispheres_def Let_def by (simp only: bp bn sum.case)
  have fp: "filter ((!) ?bp) [0..<length dm] = filter (\<lambda>i. 0 \<le> dot3 (nvecs ! i) n0) [0..<length dm]"
    using assms by (intro filter_cong) (auto simp: matvec_def sgn_real_def)
  have fn: "filter ((!) ?bn) [0..<length dm] = filter (\<lambda>i. dot3 (nvecs ! i) n0 < 0) [0..<length dm]"
    using assms by (intro filter_cong) (auto simp: matvec_def sgn_real_def)
  have e: "map Not ?bp = ?bn" by (simp add: not_le)
  have bn': "bool_index dm (map Not ?bp) = Inr ?neg" by (simp only: e bn)
  have "mset ?pos + mset ?neg = mset dm" "length ?pos + length ?neg = length dm"
    using bool_index_compl [OF lp bp bn'] by blast+
  with h fp fn show ?thesis by (metis (no_types, lifting))
qed

text \<open>Three samples about the \<open>x\<close> axis; the one on the boundary goes to the positive side.\<close>

theorem hemispheres_partition_witness:
  "length [(1, 0, 0), (- 1, 0, 0), (0, 1, 0) :: vec3] = length [10, 20, 30 :: real]
   \<and> hemispheres [(1, 0, 0), (- 1, 0, 0), (0, 1, 0)] [10, 20, 30 :: real] (1, 0, 0)
       = Inr ([10, 30], [20])"
proof -
  have u: "[0..<3] = [0, 1, 2]" by (simp add: upt_rec)
  obtain pos neg where
    h: "hemispheres [(1, 0, 0), (- 1, 0, 0), (0, 1, 0)] [10, 20, 30 :: real] (1, 0, 0) = Inr (pos, neg)"
    and p: "pos = map ((!) [10, 20, 30 :: real])
              (filter (\<lambda>i. 0 \<le> dot3 ([(1, 0, 0), (- 1, 0, 0), (0, 1, 0)] ! i) (1, 0, 0))
                 [0..<length [10, 20, 30 :: real]])"
    and n: "neg = map ((!) [10, 20, 30 :: real])
              (filter (\<lambda>i. dot3 ([(1, 0, 0), (- 1, 0, 0), (0, 1, 0)] ! i) (1, 0, 0) < 0)
                 [0..<length [10, 20, 30 :: real]])"
    using hemispheres_partition [of "[(1, 0, 0), (- 1, 0, 0), (0, 1, 0)]" "[10, 20, 30 :: real]" "(1, 0, 0)"]
    by auto
  have "pos = [10, 30]" unfolding p by (simp add: u dot3_def)
  moreover have "neg = [20]" unfolding n by (simp add: u dot3_def)
  ultimately show ?thesis using h by simp
qed

subsection \<open>The crossing angle\<close>

lemma filter_upt_first:
  assumes "i < n" "P i" "\<forall>j<i. \<not> P j"
  shows "filter P [0..<n] = i # filter P [Suc i..<n]"
proof -
  have "[0..<n] = [0..<i] @ i # [Suc i..<n]"
    using assms(1) by (metis le_add1 less_imp_add_positive upt_add_eq_append upt_conv_Cons plus_nat.add_0)
  moreover have "filter P [0..<i] = []" using assms(3) by (simp add: filter_empty_conv)
  ultimately show ?thesis using assms(2) by simp
qed

text \<open>
  Claim C4. For arrays \<open>deg\<close> and \<open>corr\<close> of one length, \<open>crossing_angle\<close> returns
  \<open>nan\<close> when no entry of \<open>corr\<close> is at or below the target. Otherwise, with \<open>i\<close>
  the first index where \<open>corr[i] \<le> target\<close>, it returns \<open>deg[0]\<close> if \<open>i = 0\<close>, and
  else the point where the line through \<open>(deg[i-1], corr[i-1])\<close> and
  \<open>(deg[i], corr[i])\<close> meets \<open>corr = target\<close>.
\<close>

theorem crossing_angle_first_crossing:
  assumes "length deg = length corr"
  shows "((\<forall>j<length corr. target < corr ! j) \<longrightarrow> crossing_angle deg corr target = Inr NaN)
       \<and> (\<forall>i. i < length corr \<and> corr ! i \<le> target \<and> (\<forall>j<i. target < corr ! j) \<longrightarrow>
             crossing_angle deg corr target =
               Inr (Num (if i = 0 then deg ! 0
                         else deg ! (i - 1)
                              + (target - corr ! (i - 1)) * (deg ! i - deg ! (i - 1))
                                / (corr ! i - corr ! (i - 1)))))"
proof (intro conjI impI allI)
  assume "\<forall>j<length corr. target < corr ! j"
  then have "where_le corr target = []"
    by (auto simp: where_le_def filter_empty_conv)
  then show "crossing_angle deg corr target = Inr NaN"
    by (simp add: crossing_angle_def)
next
  fix i
  assume a: "i < length corr \<and> corr ! i \<le> target \<and> (\<forall>j<i. target < corr ! j)"
  then have "\<forall>j<i. \<not> corr ! j \<le> target" by (simp add: not_le)
  with a have w: "where_le corr target = i # filter (\<lambda>i. corr ! i \<le> target) [Suc i..<length corr]"
    unfolding where_le_def by (intro filter_upt_first) auto
  show "crossing_angle deg corr target =
               Inr (Num (if i = 0 then deg ! 0
                         else deg ! (i - 1)
                              + (target - corr ! (i - 1)) * (deg ! i - deg ! (i - 1))
                                / (corr ! i - corr ! (i - 1))))"
  proof (cases "i = 0")
    case True
    with a assms w show ?thesis by (simp add: crossing_angle_def)
  next
    case False
    with a have "target < corr ! (i - 1)" by simp
    with a have "corr ! i - corr ! (i - 1) \<noteq> 0" by linarith
    with False a assms w show ?thesis
      by (simp add: crossing_angle_def Let_def np_div_def)
  qed
qed

text \<open>
  The example of the specification: \<open>deg = [0, 1, 2]\<close>, \<open>corr = [1, 0.6, 0.3]\<close>,
  \<open>target = 0.5\<close> gives \<open>1 + (0.5 - 0.6) / (0.3 - 0.6) = 4/3\<close>; a target never
  reached gives \<open>nan\<close>, and a target met at index \<open>0\<close> gives \<open>deg[0]\<close>.
\<close>

theorem crossing_angle_example:
  "length [0, 1, 2 :: real] = length [1, 6 / 10, 3 / 10 :: real]
   \<and> crossing_angle [0, 1, 2] [1, 6 / 10, 3 / 10] (5 / 10)
       = Inr (Num (1 + (5 / 10 - 6 / 10) / (3 / 10 - 6 / 10)))
   \<and> crossing_angle [0, 1, 2] [1, 6 / 10, 3 / 10] (5 / 10) = Inr (Num (4 / 3))
   \<and> crossing_angle [0, 1, 2] [1, 6 / 10, 3 / 10] (2 / 10) = Inr NaN
   \<and> crossing_angle [0, 1, 2] [1, 6 / 10, 3 / 10] 1 = Inr (Num 0)"
proof -
  note t = crossing_angle_first_crossing [of "[0, 1, 2]" "[1, 6 / 10, 3 / 10]", simplified]
  have j3: "j < 3 \<longleftrightarrow> j = 0 \<or> j = 1 \<or> j = 2" for j :: nat by auto
  have j2: "j < 2 \<longleftrightarrow> j = 0 \<or> j = 1" for j :: nat by auto
  have a: "crossing_angle [0, 1, 2] [1, 6 / 10, 3 / 10] (5 / 10) = Inr (Num (4 / 3))"
    using t [of "5 / 10", THEN conjunct2, rule_format, of 2] by (auto simp: j2 nth_Cons')
  have b: "crossing_angle [0, 1, 2] [1, 6 / 10, 3 / 10] (2 / 10) = Inr NaN"
    using t [of "2 / 10", THEN conjunct1] by (auto simp: j3 nth_Cons')
  have c: "crossing_angle [0, 1, 2] [1, 6 / 10, 3 / 10] 1 = Inr (Num 0)"
    using t [of 1, THEN conjunct2, rule_format, of 0] by simp
  from a b c show ?thesis by simp
qed

subsection \<open>The radial profile\<close>

lemma radial_loop_length: "length (radial_loop h w AC bins todo radial) = length radial"
  by (induction todo arbitrary: radial) (simp_all add: Let_def)

lemma radial_loop_untouched:
  "i \<notin> set todo \<Longrightarrow> radial_loop h w AC bins todo radial ! i = radial ! i"
  by (induction todo arbitrary: radial) (auto simp: Let_def)

lemma radial_loop_visited:
  assumes "i \<in> set todo" "distinct todo" "i < length radial"
  shows "radial_loop h w AC bins todo radial ! i =
           (if np_any h w (ring_mask h w (bins ! i) (bins ! (i + 1)))
            then nanmean (masked_cells h w AC (ring_mask h w (bins ! i) (bins ! (i + 1))))
            else radial ! i)"
  using assms
proof (induction todo arbitrary: radial)
  case Nil
  then show ?case by simp
next
  case (Cons k rest)
  show ?case
  proof (cases "i = k")
    case True
    with Cons.prems have "i \<notin> set rest" by simp
    with True Cons.prems(3) show ?thesis
      by (simp add: Let_def radial_loop_untouched)
  next
    case False
    with Cons.prems have "i \<in> set rest" "distinct rest" by simp_all
    with False Cons.IH Cons.prems(3) show ?thesis
      by (simp add: Let_def)
  qed
qed

lemma radial_profile_length: "length (radial_profile h w AC) = min h w div 2"
proof -
  have "\<lfloor>real (min h w) / 2\<rfloor> = int (min h w div 2)"
    by (simp add: floor_divide_of_nat_eq [where 'a = real, symmetric] del: of_nat_min)
  then show ?thesis
    by (simp add: radial_profile_def radial_bins_def Let_def radial_loop_length del: of_nat_min)
qed

lemma radial_bins_eq: "radial_bins h w = [0..<min h w div 2]"
proof -
  have "\<lfloor>real (min h w) / 2\<rfloor> = int (min h w div 2)"
    by (simp add: floor_divide_of_nat_eq [where 'a = real, symmetric] del: of_nat_min)
  then show ?thesis by (simp add: radial_bins_def del: of_nat_min)
qed

text \<open>
  Every bin but the last holds the NaN-ignoring mean of the cells of its ring
  \<open>[i, i + 1)\<close>, or the initial \<open>0\<close> when the ring has no cell.
\<close>

lemma radial_profile_filled_bins:
  assumes "i + 1 < min h w div 2"
  shows "radial_profile h w AC ! i =
           (if np_any h w (ring_mask h w i (i + 1))
            then nanmean (masked_cells h w AC (ring_mask h w i (i + 1)))
            else Num 0)"
proof -
  let ?m = "min h w div 2"
  have "radial_loop h w AC [0..<?m] [0..<?m - 1] (replicate ?m (Num 0)) ! i =
          (if np_any h w (ring_mask h w ([0..<?m] ! i) ([0..<?m] ! (i + 1)))
           then nanmean (masked_cells h w AC (ring_mask h w ([0..<?m] ! i) ([0..<?m] ! (i + 1))))
           else replicate ?m (Num 0) ! i)"
    using assms by (intro radial_loop_visited) auto
  then show ?thesis
    using assms by (simp add: radial_profile_def radial_bins_eq Let_def)
qed

text \<open>
  The last bin is never visited by the loop (\<open>range(len(bins) - 1)\<close>): it keeps the
  initial \<open>0\<close> whatever the grid holds.
\<close>

lemma radial_profile_last_bin:
  assumes "0 < min h w div 2"
  shows "radial_profile h w AC ! (min h w div 2 - 1) = Num 0"
proof -
  let ?m = "min h w div 2"
  have "radial_loop h w AC [0..<?m] [0..<?m - 1] (replicate ?m (Num 0)) ! (?m - 1)
          = replicate ?m (Num 0) ! (?m - 1)"
    by (intro radial_loop_untouched) auto
  then show ?thesis
    using assms by (simp add: radial_profile_def radial_bins_eq Let_def)
qed

lemma ring_mask_squares:
  "ring_mask h w lo hi y x \<longleftrightarrow>
     (real lo)\<^sup>2 \<le> (real y - real h / 2)\<^sup>2 + (real x - real w / 2)\<^sup>2
     \<and> (real y - real h / 2)\<^sup>2 + (real x - real w / 2)\<^sup>2 < (real hi)\<^sup>2"
proof -
  let ?s = "(real y - real h / 2)\<^sup>2 + (real x - real w / 2)\<^sup>2"
  have s: "pixel_radius h w y x = sqrt ?s"
    by (simp add: pixel_radius_def hypot_def power2_eq_square)
  have "real lo \<le> sqrt ?s \<longleftrightarrow> (real lo)\<^sup>2 \<le> ?s"
    by (metis of_nat_0_le_iff real_sqrt_abs real_sqrt_le_iff abs_of_nonneg)
  moreover have "sqrt ?s < real hi \<longleftrightarrow> ?s < (real hi)\<^sup>2"
    by (metis of_nat_0_le_iff real_sqrt_abs real_sqrt_less_iff abs_of_nonneg)
  ultimately show ?thesis by (simp add: ring_mask_def s)
qed

lemma upt4: "[0..<4] = [0, 1, 2, 3]" by (simp add: upt_rec)

text \<open>
  Claim C5 at a \<open>4 \<times> 4\<close> grid. The profile has the two bins \<open>0\<close> and \<open>1\<close>. Bin \<open>0\<close>
  holds the centre cell. The ring \<open>[1, 2)\<close> of bin \<open>1\<close> has eight cells, whose mean is
  \<open>1/2\<close>, but the profile holds \<open>0\<close> there.
\<close>

theorem radial_profile_last_bin_unfilled:
  "radial_profile 4 4 AC_4x4 = [Num 1, Num 0]
   \<and> masked_cells 4 4 AC_4x4 (ring_mask 4 4 1 2) = replicate 8 (Num (1/2))
   \<and> nanmean (masked_cells 4 4 AC_4x4 (ring_mask 4 4 1 2)) = Num (1/2)"
proof -
  have b: "radial_bins 4 4 = [0, 1]" by (simp add: radial_bins_eq upt_rec)
  have any0: "np_any 4 4 (ring_mask 4 4 0 1)"
    by (simp add: np_any_def upt4 ring_mask_squares power2_eq_square)
  have c0: "masked_cells 4 4 AC_4x4 (ring_mask 4 4 0 1) = [Num 1]"
    by (simp add: masked_cells_def upt4 ring_mask_squares power2_eq_square AC_4x4_def)
  have c1: "masked_cells 4 4 AC_4x4 (ring_mask 4 4 1 2) = replicate 8 (Num (1/2))"
    by (simp add: masked_cells_def upt4 ring_mask_squares power2_eq_square AC_4x4_def
          numeral_eq_Suc)
  have m0: "nanmean [Num 1] = Num 1" by (simp add: nanmean_def)
  have m1: "nanmean (replicate 8 (Num (1/2))) = Num (1/2)"
    by (simp add: nanmean_def Let_def sum_list_replicate)
  have "radial_profile 4 4 AC_4x4 = [Num 1, Num 0]"
    using any0 c0 by (simp add: radial_profile_def b Let_def m0)
  with c1 m1 show ?thesis by simp
qed

subsection \<open>The significance map\<close>















subsection \<open>The candidate loop\<close>















subsection \<open>The coefficient of determination\<close>






subsection \<open>Fits of fewer than two samples\<close>






subsection \<open>The permutation loop\<close>



subsection \<open>The permutation test\<close>

















end
